theory Spec2Isabelle
  imports Main
begin

section \<open>The ComboBox of the Autocomplete component\<close>

text \<open>
  A shallow embedding of \<^verbatim>\<open>ComboBox.tsx\<close>. The component keeps its hook state
  (\<^verbatim>\<open>useState\<close>) between renders, receives props from its owner, and writes the
  \<^verbatim>\<open>active\<close> flag onto entry objects and elements into the owner's
  \<^verbatim>\<open>selected\<close> array. Objects and arrays are therefore kept in an explicit store:
  a reference is the position of the object in the store, allocation appends to it.
  Every callback and effect of the component is a function from the state before to the
  state after.
\<close>

subsection \<open>Entries and the store\<close>

type_synonym addr = nat

text \<open>
  \<^verbatim>\<open>OptionDescriptor | ActionListItemDescriptor\<close>: the declarations are imported by the
  component; the fields it reads or writes are \<^verbatim>\<open>value\<close> (options only),
  \<^verbatim>\<open>active\<close>, \<^verbatim>\<open>id\<close> and \<^verbatim>\<open>onAction\<close> (actions only). An optional field
  that is \<^verbatim>\<open>undefined\<close> is \<open>None\<close>. All remaining fields (label, disabled, ...) are the
  parameter \<open>'p\<close>; the component only ever copies them.
\<close>

record 'p entry =
  opt_value :: "string option"
  active :: "bool option"
  opt_id :: "string option"
  onAction :: "nat option"
  other :: 'p

record 'p combobox =
  \<comment> \<open>props\<close>
  options :: "addr list"
  selected :: addr
  allowMultiple :: bool
  actionsBefore :: "addr list option"
  actionsAfter :: "addr list option"
  contentBefore :: bool
  contentAfter :: bool
  emptyState :: bool
  id_str :: string
  \<comment> \<open>hook state\<close>
  selectedOption :: "addr option"
  selectedIndex :: int
  selectedOptions :: addr
  navigableOptions :: "addr list"
  popoverActive :: bool
  popoverWasActive :: bool
  \<comment> \<open>the store: entry objects and \<^verbatim>\<open>string[]\<close> arrays\<close>
  objs :: "'p entry list"
  arrs :: "string list list"
  \<comment> \<open>the arguments \<^verbatim>\<open>onSelect\<close> was called with, oldest first\<close>
  onSelect_calls :: "addr list"

text \<open>
  \<open>allowMultiple\<close>, \<open>contentBefore\<close>, \<open>contentAfter\<close> and \<open>emptyState\<close> are the truthiness
  of the props: the component only tests them. \<open>id_str\<close> is the result of
  \<^verbatim>\<open>useUniqueId('ComboBox', idProp)\<close>.
\<close>

subsection \<open>JavaScript array operations\<close>

text \<open>\<^verbatim>\<open>xs[i]\<close>: \<^verbatim>\<open>undefined\<close> outside the array.\<close>

definition nth_opt :: "'a list \<Rightarrow> int \<Rightarrow> 'a option" where
  "nth_opt xs i = (if 0 \<le> i \<and> i < int (length xs) then Some (xs ! nat i) else None)"

text \<open>\<^verbatim>\<open>xs.indexOf(x)\<close>: the first position of \<open>x\<close>, or \<open>-1\<close>.\<close>

fun indexOf_from :: "'a list \<Rightarrow> 'a \<Rightarrow> int \<Rightarrow> int" where
  "indexOf_from [] x k = - 1"
| "indexOf_from (y # ys) x k = (if y = x then k else indexOf_from ys x (k + 1))"

definition indexOf :: "'a list \<Rightarrow> 'a \<Rightarrow> int" where
  "indexOf xs x = indexOf_from xs x 0"

text \<open>\<^verbatim>\<open>xs.includes(x)\<close>.\<close>

definition includes_arr :: "'a list \<Rightarrow> 'a \<Rightarrow> bool" where
  "includes_arr xs x = (x \<in> set xs)"

text \<open>
  \<^verbatim>\<open>xs.splice(start, deleteCount)\<close>, the array that is left: a negative \<open>start\<close> counts
  from the end, and both arguments are clamped to the array.
\<close>

definition splice_arr :: "'a list \<Rightarrow> int \<Rightarrow> int \<Rightarrow> 'a list" where
  "splice_arr xs start deleteCount =
     (let len = int (length xs);
          st = (if start < 0 then max (len + start) 0 else min start len);
          cnt = min (max deleteCount 0) (len - st)
      in take (nat st) xs @ drop (nat (st + cnt)) xs)"

text \<open>The decimal digits of a number, as the template literal prints an index.\<close>

fun digits :: "nat \<Rightarrow> string" where
  "digits n =
     (if n < 10 then [char_of (48 + n)]
      else digits (n div 10) @ [char_of (48 + n mod 10)])"

subsection \<open>The toggle and the flags\<close>

text \<open>
  Modelled from the spec: \<^verbatim>\<open>useToggle\<close> is imported from
  \<^verbatim>\<open>utilities/use-toggle\<close>; its \<^verbatim>\<open>setTrue\<close> and \<^verbatim>\<open>setFalse\<close> are the "explicit
  set-true/set-false operations" of the two-valued Toggle State.
\<close>

definition forcePopoverActiveTrue :: "'p combobox \<Rightarrow> 'p combobox" where
  "forcePopoverActiveTrue s = s\<lparr>popoverActive := True\<rparr>"

definition forcePopoverActiveFalse :: "'p combobox \<Rightarrow> 'p combobox" where
  "forcePopoverActiveFalse s = s\<lparr>popoverActive := False\<rparr>"

definition setPopoverWasActive :: "bool \<Rightarrow> 'p combobox \<Rightarrow> 'p combobox" where
  "setPopoverWasActive b s = s\<lparr>popoverWasActive := b\<rparr>"

text \<open>\<^verbatim>\<open>o.active = b\<close> on the object at \<open>a\<close>.\<close>

definition set_active :: "'p entry list \<Rightarrow> addr \<Rightarrow> bool \<Rightarrow> 'p entry list" where
  "set_active h a b = h[a := (h ! a)\<lparr>active := Some b\<rparr>]"

subsection \<open>Visibility callbacks\<close>

definition handlePopoverClose :: "'p combobox \<Rightarrow> 'p combobox" where
  "handlePopoverClose s = setPopoverWasActive False (forcePopoverActiveFalse s)"

definition handlePopoverOpen :: "'p combobox \<Rightarrow> 'p combobox" where
  "handlePopoverOpen s =
     (if \<not> popoverActive s \<and> length (navigableOptions s) > 0
      then setPopoverWasActive True (forcePopoverActiveTrue s)
      else s)"

subsection \<open>The cursor\<close>

definition visuallyUpdateSelectedOption ::
  "addr option \<Rightarrow> addr option \<Rightarrow> 'p combobox \<Rightarrow> 'p combobox" where
  "visuallyUpdateSelectedOption newOption oldOption s =
     (let h1 = (case oldOption of None \<Rightarrow> objs s | Some a \<Rightarrow> set_active (objs s) a False);
          h2 = (case newOption of None \<Rightarrow> h1 | Some a \<Rightarrow> set_active h1 a True)
      in s\<lparr>objs := h2\<rparr>)"

definition resetVisuallySelectedOptions :: "'p combobox \<Rightarrow> 'p combobox" where
  "resetVisuallySelectedOptions s =
     s\<lparr>selectedOption := None,
       selectedIndex := - 1,
       objs := foldl (\<lambda>h a. set_active h a False) (objs s) (navigableOptions s)\<rparr>"

definition selectOptionAtIndex :: "int \<Rightarrow> 'p combobox \<Rightarrow> 'p combobox" where
  "selectOptionAtIndex newOptionIndex s =
     (if length (navigableOptions s) = 0 then s
      else
        let newSelectedOption = nth_opt (navigableOptions s) newOptionIndex
        in (visuallyUpdateSelectedOption newSelectedOption (selectedOption s) s)
             \<lparr>selectedOption := newSelectedOption, selectedIndex := newOptionIndex\<rparr>)"

definition selectNextOption :: "'p combobox \<Rightarrow> 'p combobox" where
  "selectNextOption s =
     (if length (navigableOptions s) = 0 then s
      else
        let newIndex =
              (if selectedIndex s + 1 \<ge> int (length (navigableOptions s)) then 0
               else selectedIndex s + 1)
        in selectOptionAtIndex newIndex s)"

definition selectPreviousOption :: "'p combobox \<Rightarrow> 'p combobox" where
  "selectPreviousOption s =
     (if length (navigableOptions s) = 0 then s
      else
        let newIndex =
              (if selectedIndex s \<le> 0 then int (length (navigableOptions s)) - 1
               else selectedIndex s - 1)
        in selectOptionAtIndex newIndex s)"

subsection \<open>Committing a selection\<close>

text \<open>
  \<^verbatim>\<open>selected && onSelect(selected)\<close>: the argument is an array, which is always truthy,
  so the callback is always called. The owner's callback is outside the component; the
  model records the reference it receives.
\<close>

definition selectOptions :: "addr \<Rightarrow> 'p combobox \<Rightarrow> 'p combobox" where
  "selectOptions sel s =
     (let s1 = s\<lparr>onSelect_calls := onSelect_calls s @ [sel]\<rparr>
      in if \<not> allowMultiple s
         then setPopoverWasActive False
                (forcePopoverActiveFalse (resetVisuallySelectedOptions s1))
         else s1)"

text \<open>
  \<^verbatim>\<open>let newlySelectedOptions = selected\<close> copies the reference, not the array:
  \<^verbatim>\<open>splice\<close> and \<^verbatim>\<open>push\<close> write into the array the \<^verbatim>\<open>selected\<close> prop points to;
  only the single-select branch allocates a new array.
\<close>

definition handleSelection :: "string \<Rightarrow> 'p combobox \<Rightarrow> 'p combobox" where
  "handleSelection newSelected s =
     (let r = selected s; xs = arrs s ! r
      in if includes_arr xs newSelected
         then selectOptions r (s\<lparr>arrs := (arrs s)[r := splice_arr xs (indexOf xs newSelected) 1]\<rparr>)
         else if allowMultiple s
         then selectOptions r (s\<lparr>arrs := (arrs s)[r := xs @ [newSelected]]\<rparr>)
         else selectOptions (length (arrs s)) (s\<lparr>arrs := arrs s @ [[newSelected]]\<rparr>))"

subsection \<open>Focus, blur and click\<close>

definition handleFocus :: "'p combobox \<Rightarrow> 'p combobox" where
  "handleFocus s = setPopoverWasActive True (forcePopoverActiveTrue s)"

definition handleBlur :: "'p combobox \<Rightarrow> 'p combobox" where
  "handleBlur s =
     resetVisuallySelectedOptions (setPopoverWasActive False (forcePopoverActiveFalse s))"

definition handleClick :: "'p combobox \<Rightarrow> 'p combobox" where
  "handleClick s = (if \<not> popoverActive s then forcePopoverActiveTrue s else s)"

subsection \<open>Effects\<close>

definition updateIndexOfSelectedOption :: "addr list \<Rightarrow> 'p combobox \<Rightarrow> 'p combobox" where
  "updateIndexOfSelectedOption newOptions s =
     (case selectedOption s of
        Some so \<Rightarrow>
          if includes_arr newOptions so then selectOptionAtIndex (indexOf newOptions so) s
          else if selectedIndex s > int (length newOptions) - 1
          then resetVisuallySelectedOptions s
          else selectOptionAtIndex (selectedIndex s) s
      | None \<Rightarrow>
          if selectedIndex s > int (length newOptions) - 1
          then resetVisuallySelectedOptions s
          else selectOptionAtIndex (selectedIndex s) s)"

text \<open>
  \<^verbatim>\<open>assignOptionIds\<close>: \<^verbatim>\<open>options.map((option, optionIndex) => ({...option, id}))\<close>
  allocates one new object for each entry, a copy of the entry with the positional id.
  The result is the store with the new objects and the references to them, in order.
\<close>

definition assignOptionIds ::
  "'p entry list \<Rightarrow> addr list \<Rightarrow> string \<Rightarrow> 'p entry list \<times> addr list" where
  "assignOptionIds h opts ident =
     (h @ map (\<lambda>(optionIndex, option).
                 (h ! option)\<lparr>opt_id := Some (ident @ ''-'' @ digits optionIndex)\<rparr>)
              (zip [0 ..< length opts] opts),
      [length h ..< length h + length opts])"

definition sync_selected_effect :: "'p combobox \<Rightarrow> 'p combobox" where
  "sync_selected_effect s =
     (if selectedOptions s \<noteq> selected s then s\<lparr>selectedOptions := selected s\<rparr> else s)"

text \<open>
  The list-rebuild effect. \<^verbatim>\<open>options\<close> is a required array prop, hence truthy; the
  action lists are optional.
\<close>

definition rebuild_effect :: "'p combobox \<Rightarrow> 'p combobox" where
  "rebuild_effect s =
     (let n0 = [];
          n1 = (case actionsBefore s of Some ab \<Rightarrow> n0 @ ab | None \<Rightarrow> n0);
          n2 = n1 @ options s;
          n3 = (case actionsAfter s of Some aa \<Rightarrow> n2 @ aa | None \<Rightarrow> n2);
          (h, refs) = assignOptionIds (objs s) n3 (id_str s)
      in s\<lparr>objs := h, navigableOptions := refs\<rparr>)"

definition reindex_effect :: "'p combobox \<Rightarrow> 'p combobox" where
  "reindex_effect s = updateIndexOfSelectedOption (navigableOptions s) s"

definition visibility_effect :: "'p combobox \<Rightarrow> 'p combobox" where
  "visibility_effect s =
     (if length (navigableOptions s) = 0 \<and> \<not> contentBefore s \<and> \<not> contentAfter s
           \<and> \<not> emptyState s
      then forcePopoverActiveFalse s
      else if popoverWasActive s \<and> length (navigableOptions s) \<noteq> 0
      then forcePopoverActiveTrue s
      else s)"

text \<open>The hook state of the first render: the \<^verbatim>\<open>useState\<close> defaults.\<close>

definition mount :: "'p combobox \<Rightarrow> 'p combobox" where
  "mount s =
     s\<lparr>selectedOption := None, selectedIndex := - 1, selectedOptions := selected s,
       navigableOptions := [], popoverActive := False, popoverWasActive := False\<rparr>"

text \<open>
  A change of the lists the owner passes, followed by the effects that depend on them, in
  the order the component declares them.
\<close>

definition rerender ::
  "addr list option \<Rightarrow> addr list \<Rightarrow> addr list option \<Rightarrow> 'p combobox \<Rightarrow> 'p combobox" where
  "rerender ab opts aa s =
     visibility_effect (reindex_effect (rebuild_effect
       (s\<lparr>actionsBefore := ab, options := opts, actionsAfter := aa\<rparr>)))"

subsection \<open>Observations\<close>

text \<open>The cursor: the highlighted index and the highlighted entry.\<close>

definition cursor :: "'p combobox \<Rightarrow> int \<times> addr option" where
  "cursor s = (selectedIndex s, selectedOption s)"

text \<open>The selection the owner's callback received last: the array behind the reference.\<close>

definition last_onSelect_arg :: "'p combobox \<Rightarrow> string list" where
  "last_onSelect_arg s = arrs s ! last (onSelect_calls s)"

text \<open>Content of the panel that is not part of the navigable list.\<close>

definition has_auxiliary_content :: "'p combobox \<Rightarrow> bool" where
  "has_auxiliary_content s = (contentBefore s \<or> contentAfter s \<or> emptyState s)"

text \<open>The entries the owner passes, in the order the rebuild concatenates them.\<close>

definition caller_entries :: "'p combobox \<Rightarrow> addr list" where
  "caller_entries s =
     (case actionsBefore s of Some ab \<Rightarrow> ab | None \<Rightarrow> []) @ options s
       @ (case actionsAfter s of Some aa \<Rightarrow> aa | None \<Rightarrow> [])"

subsection \<open>Navigation sequences and the highlight\<close>

text \<open>The navigation operations, and a sequence of them applied in order.\<close>

datatype nav_op =
    SelectOptionAtIndex int
  | SelectNextOption
  | SelectPreviousOption
  | ResetVisuallySelectedOptions

fun nav_step :: "nav_op \<Rightarrow> 'p combobox \<Rightarrow> 'p combobox" where
  "nav_step (SelectOptionAtIndex i) s = selectOptionAtIndex i s"
| "nav_step SelectNextOption s = selectNextOption s"
| "nav_step SelectPreviousOption s = selectPreviousOption s"
| "nav_step ResetVisuallySelectedOptions s = resetVisuallySelectedOptions s"

fun run_nav :: "nav_op list \<Rightarrow> 'p combobox \<Rightarrow> 'p combobox" where
  "run_nav [] s = s"
| "run_nav (x # xs) s = run_nav xs (nav_step x s)"

text \<open>The entry at \<open>r\<close> is highlighted: its \<^verbatim>\<open>active\<close> is \<^verbatim>\<open>true\<close>.\<close>

definition is_active :: "'p combobox \<Rightarrow> addr \<Rightarrow> bool" where
  "is_active s r = (active (objs s ! r) = Some True)"

text \<open>How many entries of the navigable list are highlighted.\<close>

definition active_count :: "'p combobox \<Rightarrow> nat" where
  "active_count s = length (filter (is_active s) (navigableOptions s))"

text \<open>
  The navigable list holds distinct, allocated objects, and every highlighted entry of it
  is the cursor's entry.
\<close>

definition only_cursor_active :: "'p combobox \<Rightarrow> bool" where
  "only_cursor_active s =
     (distinct (navigableOptions s)
      \<and> list_all (\<lambda>r. r < length (objs s)) (navigableOptions s)
      \<and> list_all (\<lambda>r. is_active s r \<longrightarrow> selectedOption s = Some r) (navigableOptions s))"

subsection \<open>Events\<close>

text \<open>
  The events of the component: a navigation operation, a render with new lists from the
  owner (followed by the effects), an object the owner creates, a commit, and the focus,
  blur, click and dismiss handlers.
\<close>

datatype 'p event =
    Navigate nav_op
  | Rerender "addr list option" "addr list" "addr list option"
  | OwnerAlloc "'p entry"
  | Commit string
  | Focus
  | Blur
  | Click
  | Dismiss

fun step :: "'p event \<Rightarrow> 'p combobox \<Rightarrow> 'p combobox" where
  "step (Navigate x) s = nav_step x s"
| "step (Rerender ab opts aa) s = rerender ab opts aa s"
| "step (OwnerAlloc e) s = s\<lparr>objs := objs s @ [e]\<rparr>"
| "step (Commit v) s = handleSelection v s"
| "step Focus s = handleFocus s"
| "step Blur s = handleBlur s"
| "step Click s = handleClick s"
| "step Dismiss s = handlePopoverClose s"

fun run :: "'p event list \<Rightarrow> 'p combobox \<Rightarrow> 'p combobox" where
  "run [] s = s"
| "run (e # es) s = run es (step e s)"

text \<open>
  The component holds no reference to the allocated object at \<open>a\<close>: it is neither in
  the navigable list nor the cursor's entry.
\<close>

definition not_held :: "'p combobox \<Rightarrow> addr \<Rightarrow> bool" where
  "not_held s a =
     (a < length (objs s) \<and> a \<notin> set (navigableOptions s) \<and> selectedOption s \<noteq> Some a)"

subsection \<open>Example states\<close>

text \<open>
  An owner with three options \<open>A\<close>, \<open>B\<close>, \<open>C\<close> at the references 0, 1, 2 and the
  selection \<open>[A]\<close>; \<open>abc_state\<close> is the component after its first render.
\<close>

definition ex_entry :: "string \<Rightarrow> bool option \<Rightarrow> unit entry" where
  "ex_entry v a =
     \<lparr>opt_value = Some v, active = a, opt_id = None, onAction = None, other = ()\<rparr>"

definition ex_props :: "unit combobox" where
  "ex_props =
     \<lparr>options = [0, 1, 2], selected = 0, allowMultiple = False,
      actionsBefore = None, actionsAfter = None,
      contentBefore = False, contentAfter = False, emptyState = False,
      id_str = ''ComboBox1'',
      selectedOption = None, selectedIndex = - 1, selectedOptions = 0,
      navigableOptions = [], popoverActive = False, popoverWasActive = False,
      objs = [ex_entry ''A'' None, ex_entry ''B'' None, ex_entry ''C'' None],
      arrs = [[''A'']], onSelect_calls = []\<rparr>"

definition abc_state :: "unit combobox" where
  "abc_state = rerender None [0, 1, 2] None (mount ex_props)"

text \<open>Focus, then the down arrow twice: the panel is open and the cursor is on \<open>B\<close>.\<close>

definition on_B_state :: "unit combobox" where
  "on_B_state = selectNextOption (selectNextOption (handleFocus abc_state))"

text \<open>An owner without options, with an empty-state placeholder.\<close>

definition empty_list_state :: "unit combobox" where
  "empty_list_state = rerender None [] None (mount (ex_props\<lparr>emptyState := True\<rparr>))"

text \<open>An owner whose third option already carries \<^verbatim>\<open>active: true\<close>.\<close>

definition flagged_state :: "unit combobox" where
  "flagged_state =
     rerender None [0, 1, 2] None
       (mount (ex_props\<lparr>objs := [ex_entry ''A'' None, ex_entry ''B'' None,
                                  ex_entry ''C'' (Some True)]\<rparr>))"

section \<open>Properties\<close>

lemmas toggle_defs = forcePopoverActiveTrue_def forcePopoverActiveFalse_def
  setPopoverWasActive_def

lemmas cursor_defs = selectOptionAtIndex_def selectNextOption_def selectPreviousOption_def
  resetVisuallySelectedOptions_def visuallyUpdateSelectedOption_def

lemmas effect_defs = rerender_def mount_def rebuild_effect_def reindex_effect_def
  visibility_effect_def assignOptionIds_def updateIndexOfSelectedOption_def

lemmas ex_defs = abc_state_def on_B_state_def ex_props_def ex_entry_def effect_defs
  cursor_defs toggle_defs handleFocus_def set_active_def nth_opt_def includes_arr_def
  indexOf_def cursor_def Let_def upt_rec


subsection \<open>Store and array lemmas\<close>


lemma length_set_active: "length (set_active h a b) = length h"
  by (simp add: set_active_def)

lemma nth_set_active_other: "a \<noteq> c \<Longrightarrow> set_active h a b ! c = h ! c"
  by (simp add: set_active_def)

lemma nth_set_active_same: "a < length h \<Longrightarrow> active (set_active h a b ! a) = Some b"
  by (simp add: set_active_def)

lemma length_clear_all: "length (foldl (\<lambda>h a. set_active h a b) h as) = length h"
  by (induction as arbitrary: h) (simp_all add: length_set_active)

lemma nth_clear_all_other:
  "c \<notin> set as \<Longrightarrow> foldl (\<lambda>h a. set_active h a b) h as ! c = h ! c"
  by (induction as arbitrary: h) (auto simp: nth_set_active_other)

lemma nth_clear_all_same:
  "c \<in> set as \<Longrightarrow> c < length h \<Longrightarrow> active (foldl (\<lambda>h a. set_active h a b) h as ! c) = Some b"
proof (induction as arbitrary: h)
  case Nil
  then show ?case by simp
next
  case (Cons a as)
  show ?case
  proof (cases "c \<in> set as")
    case True
    with Cons show ?thesis by (simp add: length_set_active)
  next
    case False
    with Cons have "c = a" by simp
    with False Cons.prems show ?thesis
      by (simp add: nth_clear_all_other nth_set_active_same)
  qed
qed

lemma indexOf_from_bounds:
  "x \<in> set xs \<Longrightarrow> k \<le> indexOf_from xs x k \<and> indexOf_from xs x k < k + int (length xs)"
proof (induction xs arbitrary: k)
  case Nil
  then show ?case by simp
next
  case (Cons y ys)
  show ?case
  proof (cases "y = x")
    case True
    then show ?thesis by simp
  next
    case False
    with Cons.prems have "x \<in> set ys" by simp
    from Cons.IH [OF this, of "k + 1"] False show ?thesis by simp
  qed
qed

lemma indexOf_from_absent: "x \<notin> set xs \<Longrightarrow> indexOf_from xs x k = - 1"
  by (induction xs arbitrary: k) auto

lemma indexOf_from_nth:
  "x \<in> set xs \<Longrightarrow> xs ! nat (indexOf_from xs x k - k) = x"
proof (induction xs arbitrary: k)
  case Nil
  then show ?case by simp
next
  case (Cons y ys)
  show ?case
  proof (cases "y = x")
    case True
    then show ?thesis by simp
  next
    case False
    with Cons.prems have in_ys: "x \<in> set ys" by simp
    from indexOf_from_bounds [OF in_ys, of "k + 1"]
    have "nat (indexOf_from ys x (k + 1) - k) = Suc (nat (indexOf_from ys x (k + 1) - (k + 1)))"
      by arith
    with Cons.IH [OF in_ys, of "k + 1"] False show ?thesis by simp
  qed
qed

lemma indexOf_from_remove1:
  "x \<in> set xs \<Longrightarrow>
   take (nat (indexOf_from xs x k - k)) xs @ drop (Suc (nat (indexOf_from xs x k - k))) xs
     = remove1 x xs"
proof (induction xs arbitrary: k)
  case Nil
  then show ?case by simp
next
  case (Cons y ys)
  show ?case
  proof (cases "y = x")
    case True
    then show ?thesis by simp
  next
    case False
    with Cons.prems have in_ys: "x \<in> set ys" by simp
    from indexOf_from_bounds [OF in_ys, of "k + 1"]
    have "nat (indexOf_from ys x (k + 1) - k) = Suc (nat (indexOf_from ys x (k + 1) - (k + 1)))"
      by arith
    with Cons.IH [OF in_ys, of "k + 1"] False show ?thesis by simp
  qed
qed

lemma indexOf_bounds: "x \<in> set xs \<Longrightarrow> 0 \<le> indexOf xs x \<and> indexOf xs x < int (length xs)"
  using indexOf_from_bounds [of x xs 0] by (simp add: indexOf_def)

lemma nth_opt_indexOf: "x \<in> set xs \<Longrightarrow> nth_opt xs (indexOf xs x) = Some x"
  using indexOf_from_nth [of x xs 0] indexOf_bounds [of x xs]
  by (simp add: nth_opt_def indexOf_def)

lemma splice_indexOf: "x \<in> set xs \<Longrightarrow> splice_arr xs (indexOf xs x) 1 = remove1 x xs"
proof -
  assume mem: "x \<in> set xs"
  let ?i = "indexOf xs x"
  from indexOf_bounds [OF mem] have b: "0 \<le> ?i" "?i < int (length xs)" by simp_all
  then have "splice_arr xs ?i 1 = take (nat ?i) xs @ drop (nat (?i + 1)) xs"
    by (simp add: splice_arr_def Let_def min_def max_def)
  also from b have "nat (?i + 1) = Suc (nat ?i)" by simp
  finally show ?thesis
    using indexOf_from_remove1 [OF mem, of 0] by (simp add: indexOf_def)
qed

lemma nth_opt_mem: "nth_opt xs i = Some a \<Longrightarrow> a \<in> set xs"
  by (auto simp: nth_opt_def split: if_splits)

subsection \<open>Cursor lemmas\<close>

lemma selectOptionAtIndex_empty: "navigableOptions s = [] \<Longrightarrow> selectOptionAtIndex i s = s"
  by (simp add: selectOptionAtIndex_def)

lemma cursor_selectOptionAtIndex:
  "navigableOptions s \<noteq> [] \<Longrightarrow>
   cursor (selectOptionAtIndex i s) = (i, nth_opt (navigableOptions s) i)"
  by (simp add: selectOptionAtIndex_def cursor_def Let_def visuallyUpdateSelectedOption_def)

lemma navigableOptions_selectOptionAtIndex:
  "navigableOptions (selectOptionAtIndex i s) = navigableOptions s"
  by (simp add: selectOptionAtIndex_def Let_def visuallyUpdateSelectedOption_def)

lemma cursor_selectNextOption:
  "navigableOptions s \<noteq> [] \<Longrightarrow>
   cursor (selectNextOption s) =
     (let i = (if selectedIndex s + 1 \<ge> int (length (navigableOptions s)) then 0
               else selectedIndex s + 1)
      in (i, nth_opt (navigableOptions s) i))"
  by (simp add: selectNextOption_def Let_def cursor_selectOptionAtIndex)

lemma cursor_selectPreviousOption:
  "navigableOptions s \<noteq> [] \<Longrightarrow>
   cursor (selectPreviousOption s) =
     (let i = (if selectedIndex s \<le> 0 then int (length (navigableOptions s)) - 1
               else selectedIndex s - 1)
      in (i, nth_opt (navigableOptions s) i))"
  by (simp add: selectPreviousOption_def Let_def cursor_selectOptionAtIndex)

lemma navigableOptions_selectNextOption:
  "navigableOptions (selectNextOption s) = navigableOptions s"
  by (simp add: selectNextOption_def Let_def navigableOptions_selectOptionAtIndex)

lemma navigableOptions_selectPreviousOption:
  "navigableOptions (selectPreviousOption s) = navigableOptions s"
  by (simp add: selectPreviousOption_def Let_def navigableOptions_selectOptionAtIndex)

lemma on_B_state_facts:
  "cursor on_B_state = (1, Some 4) \<and> popoverActive on_B_state \<and> \<not> allowMultiple on_B_state"
  by (simp add: ex_defs)

lemma on_B_state_cursor_ok:
  "0 \<le> selectedIndex on_B_state
   \<and> selectedIndex on_B_state < int (length (navigableOptions on_B_state))
   \<and> selectedOption on_B_state = nth_opt (navigableOptions on_B_state) (selectedIndex on_B_state)"
  by (simp add: ex_defs)

lemma abc_state_facts:
  "navigableOptions abc_state = [3, 4, 5] \<and> selectedIndex abc_state = - 1
   \<and> selectedOption abc_state = None \<and> \<not> popoverActive abc_state
   \<and> selected abc_state = 0 \<and> arrs abc_state = [[''A'']] \<and> \<not> allowMultiple abc_state"
  by (simp add: ex_defs)

subsection \<open>Committing a selection\<close>

lemma arrs_selectOptions: "arrs (selectOptions r s) = arrs s"
  by (simp add: selectOptions_def Let_def toggle_defs resetVisuallySelectedOptions_def)

lemma onSelect_calls_selectOptions:
  "onSelect_calls (selectOptions r s) = onSelect_calls s @ [r]"
  by (simp add: selectOptions_def Let_def toggle_defs resetVisuallySelectedOptions_def)

text \<open>
  Claim C1. \<^verbatim>\<open>handleSelection\<close> calls the owner's callback exactly once, and the
  selection the callback receives is: the current selection with the committed value
  taken out when the value is present (\<^verbatim>\<open>splice\<close> at \<^verbatim>\<open>indexOf\<close> removes its first
  occurrence); otherwise the current selection with the value appended under
  multi-select; otherwise exactly \<open>[value]\<close>. This holds for every selection and every
  value.
\<close>

theorem handleSelection_selection:
  assumes "selected s < length (arrs s)"
  shows "length (onSelect_calls (handleSelection v s)) = Suc (length (onSelect_calls s))
       \<and> last_onSelect_arg (handleSelection v s) =
          (let sel = arrs s ! selected s
           in if v \<in> set sel then remove1 v sel
              else if allowMultiple s then sel @ [v]
              else [v])"
  using assms
  by (simp add: handleSelection_def last_onSelect_arg_def Let_def includes_arr_def
      arrs_selectOptions onSelect_calls_selectOptions splice_indexOf)

theorem handleSelection_selection_witness:
  "selected abc_state < length (arrs abc_state)
   \<and> last_onSelect_arg (handleSelection ''A'' abc_state) = []
   \<and> last_onSelect_arg (handleSelection ''B'' abc_state) = [''B'']
   \<and> last_onSelect_arg (handleSelection ''B'' (abc_state\<lparr>allowMultiple := True\<rparr>))
       = [''A'', ''B'']"
proof -
  have v: "selected abc_state < length (arrs abc_state)"
    using abc_state_facts by simp
  have v': "selected (abc_state\<lparr>allowMultiple := True\<rparr>)
              < length (arrs (abc_state\<lparr>allowMultiple := True\<rparr>))"
    using abc_state_facts by simp
  show ?thesis
    using v abc_state_facts
      handleSelection_selection [OF v, of "''A''"]
      handleSelection_selection [OF v, of "''B''"]
      handleSelection_selection [OF v', of "''B''"]
    by simp
qed

text \<open>
  Claim C2 says that a commit never changes the array the owner passed as
  \<^verbatim>\<open>selected\<close>. The code does change it: \<^verbatim>\<open>newlySelectedOptions\<close> is the same
  array as \<^verbatim>\<open>selected\<close>, so \<^verbatim>\<open>push\<close> and \<^verbatim>\<open>splice\<close> write into the owner's
  array, and the callback receives that very array. With the selection \<open>[A]\<close>, committing
  \<open>B\<close> under multi-select leaves \<open>[A, B]\<close> in the owner's array, and committing \<open>A\<close> leaves
  it empty. Only the single-select replacement allocates a new array.
\<close>

theorem handleSelection_mutates_selected:
  "arrs abc_state ! selected abc_state = [''A'']
   \<and> arrs (handleSelection ''B'' (abc_state\<lparr>allowMultiple := True\<rparr>)) ! selected abc_state
       = [''A'', ''B'']
   \<and> onSelect_calls (handleSelection ''B'' (abc_state\<lparr>allowMultiple := True\<rparr>))
       = [selected abc_state]
   \<and> arrs (handleSelection ''A'' abc_state) ! selected abc_state = []
   \<and> onSelect_calls (handleSelection ''A'' abc_state) = [selected abc_state]"
  by (simp add: ex_defs handleSelection_def selectOptions_def splice_arr_def)

text \<open>
  Claim C3. After \<^verbatim>\<open>selectOptions\<close> under single-select the cursor is \<open>(-1, none)\<close> and
  the panel is closed; under multi-select the cursor (index and entry), the panel and the
  memory flag are what they were before.
\<close>

theorem selectOptions_cursor_and_panel:
  "(\<not> allowMultiple s \<longrightarrow>
      cursor (selectOptions sel s) = (- 1, None) \<and> \<not> popoverActive (selectOptions sel s))
   \<and> (allowMultiple s \<longrightarrow>
      cursor (selectOptions sel s) = cursor s
      \<and> popoverActive (selectOptions sel s) = popoverActive s
      \<and> popoverWasActive (selectOptions sel s) = popoverWasActive s)"
  by (simp add: selectOptions_def Let_def cursor_def toggle_defs
      resetVisuallySelectedOptions_def)

theorem selectOptions_cursor_and_panel_witness:
  "cursor on_B_state = (1, Some 4) \<and> popoverActive on_B_state
   \<and> cursor (selectOptions 0 on_B_state) = (- 1, None)
   \<and> \<not> popoverActive (selectOptions 0 on_B_state)
   \<and> cursor (selectOptions 0 (on_B_state\<lparr>allowMultiple := True\<rparr>)) = (1, Some 4)
   \<and> popoverActive (selectOptions 0 (on_B_state\<lparr>allowMultiple := True\<rparr>))"
  using on_B_state_facts
    selectOptions_cursor_and_panel [of on_B_state 0]
    selectOptions_cursor_and_panel [of "on_B_state\<lparr>allowMultiple := True\<rparr>" 0]
  by (simp add: cursor_def)

subsection \<open>Next and previous\<close>

text \<open>
  Claim C5 says that the previous-step undoes the next-step from every cursor state,
  the initial one included. From the initial cursor \<open>(-1, none)\<close> over the three entries
  of \<open>abc_state\<close> the next-step highlights index 0 and the previous-step then wraps to
  index 2: the cursor is not restored.
\<close>

theorem selectPrevious_selectNext_counterexample:
  "cursor abc_state = (- 1, None)
   \<and> cursor (selectPreviousOption (selectNextOption abc_state)) = (2, Some 5)
   \<and> cursor (selectPreviousOption (selectNextOption abc_state)) \<noteq> cursor abc_state"
  by (simp add: ex_defs)

text \<open>
  Claim C5, amended. \<^verbatim>\<open>selectPreviousOption\<close> after \<^verbatim>\<open>selectNextOption\<close> restores
  the cursor when the list is empty, and when the cursor is on an entry: its index is
  within the list and its entry is the one at that index. From a cursor with index
  \<open>-1\<close> over a non-empty list the two steps end on the last entry.
\<close>

theorem selectPrevious_selectNext_inverse:
  "(navigableOptions s = [] \<or>
      (0 \<le> selectedIndex s \<and> selectedIndex s < int (length (navigableOptions s))
       \<and> selectedOption s = nth_opt (navigableOptions s) (selectedIndex s))
    \<longrightarrow> cursor (selectPreviousOption (selectNextOption s)) = cursor s)
   \<and> (navigableOptions s \<noteq> [] \<and> selectedIndex s = - 1
    \<longrightarrow> cursor (selectPreviousOption (selectNextOption s)) =
          (int (length (navigableOptions s)) - 1, Some (last (navigableOptions s))))"
proof (cases "navigableOptions s = []")
  case True
  then show ?thesis by (simp add: selectNextOption_def selectPreviousOption_def)
next
  case False
  let ?n = "int (length (navigableOptions s))"
  let ?s1 = "selectNextOption s"
  have nav1: "navigableOptions ?s1 \<noteq> []"
    using False by (simp add: navigableOptions_selectNextOption)
  have c1: "selectedIndex ?s1 = (if selectedIndex s + 1 \<ge> ?n then 0 else selectedIndex s + 1)"
    using cursor_selectNextOption [OF False] by (simp add: cursor_def Let_def)
  have c2: "cursor (selectPreviousOption ?s1) =
      (let i = (if selectedIndex ?s1 \<le> 0 then ?n - 1 else selectedIndex ?s1 - 1)
       in (i, nth_opt (navigableOptions s) i))"
    using cursor_selectPreviousOption [OF nav1] by (simp add: navigableOptions_selectNextOption)
  have len: "0 < ?n" using False by simp
  have inrange: "cursor (selectPreviousOption ?s1) = cursor s"
    if "0 \<le> selectedIndex s" "selectedIndex s < ?n"
       "selectedOption s = nth_opt (navigableOptions s) (selectedIndex s)"
  proof -
    have "(if selectedIndex ?s1 \<le> 0 then ?n - 1 else selectedIndex ?s1 - 1) = selectedIndex s"
      using that(1,2) c1 by auto
    with c2 that(3) show ?thesis by (simp add: cursor_def Let_def)
  qed
  have initial: "cursor (selectPreviousOption ?s1) = (?n - 1, Some (last (navigableOptions s)))"
    if "selectedIndex s = - 1"
  proof -
    have wrapped: "(if selectedIndex ?s1 \<le> 0 then ?n - 1 else selectedIndex ?s1 - 1) = ?n - 1"
      using that c1 len by auto
    have idx: "nat (?n - 1) = length (navigableOptions s) - 1"
      by arith
    have "nth_opt (navigableOptions s) (?n - 1) = Some (last (navigableOptions s))"
      using False len by (simp add: nth_opt_def last_conv_nth idx)
    with wrapped c2 show ?thesis by (simp add: Let_def)
  qed
  from False inrange initial show ?thesis by blast
qed

theorem selectPrevious_selectNext_inverse_witness:
  "cursor on_B_state = (1, Some 4)
   \<and> cursor (selectPreviousOption (selectNextOption on_B_state)) = (1, Some 4)
   \<and> cursor (selectPreviousOption (selectNextOption abc_state)) = (2, Some 5)"
proof -
  have a: "cursor (selectPreviousOption (selectNextOption on_B_state)) = cursor on_B_state"
    using selectPrevious_selectNext_inverse [of on_B_state] on_B_state_cursor_ok by blast
  have b: "cursor (selectPreviousOption (selectNextOption abc_state)) = (2, Some 5)"
    using selectPrevious_selectNext_inverse [of abc_state] abc_state_facts by simp
  from a b on_B_state_facts show ?thesis by simp
qed

subsection \<open>Index arithmetic of the two steps\<close>

text \<open>
  Claim C6. Over an empty list \<^verbatim>\<open>selectNextOption\<close> and \<^verbatim>\<open>selectPreviousOption\<close>
  leave the whole state as it is. Over a non-empty list of length \<open>n\<close>, the previous-step
  moves the cursor to \<open>n - 1\<close> from any index \<open>\<le> 0\<close> and to the index before otherwise;
  the next-step moves a cursor with index in \<open>[-1, n - 1]\<close> (the range of the cursor) to
  \<open>(index + 1) mod n\<close>, so that the first step from \<open>-1\<close> highlights index 0. In both
  cases the cursor's entry is the entry at the new index.
\<close>

theorem select_next_previous_index:
  "(navigableOptions s = [] \<longrightarrow> selectNextOption s = s \<and> selectPreviousOption s = s)
   \<and> (navigableOptions s \<noteq> [] \<longrightarrow>
        cursor (selectPreviousOption s) =
          (let j = (if selectedIndex s \<le> 0 then int (length (navigableOptions s)) - 1
                    else selectedIndex s - 1)
           in (j, nth_opt (navigableOptions s) j))
        \<and> (- 1 \<le> selectedIndex s \<and> selectedIndex s < int (length (navigableOptions s)) \<longrightarrow>
             cursor (selectNextOption s) =
               (let i = (selectedIndex s + 1) mod int (length (navigableOptions s))
                in (i, nth_opt (navigableOptions s) i))))"
proof (cases "navigableOptions s = []")
  case True
  then show ?thesis by (simp add: selectNextOption_def selectPreviousOption_def)
next
  case False
  let ?n = "int (length (navigableOptions s))"
  have "(selectedIndex s + 1) mod ?n = (if selectedIndex s + 1 \<ge> ?n then 0 else selectedIndex s + 1)"
    if "- 1 \<le> selectedIndex s" "selectedIndex s < ?n"
  proof (cases "selectedIndex s + 1 \<ge> ?n")
    case True
    with that have "selectedIndex s + 1 = ?n" by simp
    then show ?thesis by simp
  next
    case False
    with that show ?thesis by simp
  qed
  with False show ?thesis
    by (simp add: cursor_selectNextOption cursor_selectPreviousOption Let_def)
qed

theorem select_next_previous_index_witness:
  "cursor (selectNextOption abc_state) = (0, Some 3)
   \<and> cursor (selectPreviousOption abc_state) = (2, Some 5)
   \<and> cursor (selectNextOption (selectNextOption (selectNextOption abc_state))) = (2, Some 5)
   \<and> selectNextOption (mount ex_props) = mount ex_props
   \<and> selectPreviousOption (mount ex_props) = mount ex_props"
proof -
  have e: "navigableOptions (mount ex_props) = []"
    by (simp add: mount_def)
  have a: "navigableOptions abc_state \<noteq> [] \<and> - 1 \<le> selectedIndex abc_state
      \<and> selectedIndex abc_state < int (length (navigableOptions abc_state))"
    using abc_state_facts by simp
  have n: "cursor (selectNextOption abc_state) = (0, Some 3)"
    using select_next_previous_index [of abc_state] abc_state_facts
    by (simp add: nth_opt_def)
  have p: "cursor (selectPreviousOption abc_state) = (2, Some 5)"
    using select_next_previous_index [of abc_state] abc_state_facts
    by (simp add: nth_opt_def)
  have w: "cursor (selectNextOption (selectNextOption (selectNextOption abc_state))) = (2, Some 5)"
    by (simp add: ex_defs)
  from n p w e select_next_previous_index [of "mount ex_props"] show ?thesis
    by simp
qed


subsection \<open>Focus\<close>


lemma empty_list_state_facts:
  "navigableOptions empty_list_state = [] \<and> \<not> popoverActive empty_list_state
   \<and> \<not> popoverWasActive empty_list_state \<and> emptyState empty_list_state"
  by (simp add: empty_list_state_def ex_defs)

text \<open>
  Claim C7 says that the focus handler opens the panel only when it is closed and the
  list is non-empty, as \<^verbatim>\<open>handlePopoverOpen\<close> does. \<^verbatim>\<open>handleFocus\<close> has no such
  guard. With an empty list and an empty-state placeholder, the closed panel is open
  after the focus event, and stays open after the visibility effect, where
  \<^verbatim>\<open>handlePopoverOpen\<close> changes nothing.
\<close>

theorem handleFocus_counterexample:
  "navigableOptions empty_list_state = [] \<and> \<not> popoverActive empty_list_state
   \<and> handlePopoverOpen empty_list_state = empty_list_state
   \<and> popoverActive (handleFocus empty_list_state)
   \<and> popoverActive (visibility_effect (handleFocus empty_list_state))
   \<and> handleFocus empty_list_state \<noteq> handlePopoverOpen empty_list_state"
proof -
  have "popoverActive (handleFocus empty_list_state)"
    by (simp add: handleFocus_def toggle_defs)
  moreover have "popoverActive (visibility_effect (handleFocus empty_list_state))"
    using empty_list_state_facts by (simp add: handleFocus_def toggle_defs visibility_effect_def)
  moreover have "handlePopoverOpen empty_list_state = empty_list_state"
    using empty_list_state_facts by (simp add: handlePopoverOpen_def)
  ultimately show ?thesis using empty_list_state_facts by auto
qed

text \<open>
  Claim C7, amended. On every focus event \<^verbatim>\<open>handleFocus\<close> opens the panel and sets
  the memory flag, whatever the panel and the list are. After the visibility effect that
  follows, the panel is open exactly when the list is non-empty or there is auxiliary
  content. \<^verbatim>\<open>handleFocus\<close> agrees with \<^verbatim>\<open>handlePopoverOpen\<close> when the panel is
  closed and the list is non-empty.
\<close>

theorem handleFocus_unconditional:
  "handleFocus s = s\<lparr>popoverActive := True, popoverWasActive := True\<rparr>
   \<and> popoverActive (visibility_effect (handleFocus s)) =
       (navigableOptions s \<noteq> [] \<or> has_auxiliary_content s)
   \<and> (\<not> popoverActive s \<and> navigableOptions s \<noteq> [] \<longrightarrow> handleFocus s = handlePopoverOpen s)"
  by (auto simp: handleFocus_def handlePopoverOpen_def toggle_defs visibility_effect_def
      has_auxiliary_content_def)

theorem handleFocus_unconditional_witness:
  "popoverActive (handleFocus empty_list_state)
   \<and> popoverWasActive (handleFocus empty_list_state)
   \<and> popoverActive (visibility_effect (handleFocus empty_list_state))
   \<and> handleFocus abc_state = handlePopoverOpen abc_state
   \<and> popoverActive (handleFocus abc_state)"
proof -
  have aux: "has_auxiliary_content empty_list_state"
    using empty_list_state_facts by (simp add: has_auxiliary_content_def)
  have "handleFocus empty_list_state
      = empty_list_state\<lparr>popoverActive := True, popoverWasActive := True\<rparr>"
    using handleFocus_unconditional [of empty_list_state] by simp
  then have a: "popoverActive (handleFocus empty_list_state)
      \<and> popoverWasActive (handleFocus empty_list_state)" by simp
  have b: "popoverActive (visibility_effect (handleFocus empty_list_state))"
    using handleFocus_unconditional [of empty_list_state] aux by blast
  have closed: "\<not> popoverActive abc_state \<and> navigableOptions abc_state \<noteq> []"
    using abc_state_facts by simp
  have c: "handleFocus abc_state = handlePopoverOpen abc_state"
    using handleFocus_unconditional [of abc_state] closed by blast
  have "handleFocus abc_state = abc_state\<lparr>popoverActive := True, popoverWasActive := True\<rparr>"
    using handleFocus_unconditional [of abc_state] by simp
  then have d: "popoverActive (handleFocus abc_state)" by simp
  from a b c d show ?thesis by simp
qed

subsection \<open>Rebuilding the list and the visibility effect\<close>

lemma rebuild_effect_eq:
  "rebuild_effect s =
     s\<lparr>objs := objs s @ map (\<lambda>(optionIndex, option).
                 (objs s ! option)\<lparr>opt_id := Some (id_str s @ ''-'' @ digits optionIndex)\<rparr>)
              (zip [0 ..< length (caller_entries s)] (caller_entries s)),
       navigableOptions := [length (objs s) ..< length (objs s) + length (caller_entries s)]\<rparr>"
  by (simp add: rebuild_effect_def assignOptionIds_def caller_entries_def Let_def
      split: option.splits)

lemma rebuild_effect_frame:
  "popoverActive (rebuild_effect s) = popoverActive s
   \<and> popoverWasActive (rebuild_effect s) = popoverWasActive s
   \<and> has_auxiliary_content (rebuild_effect s) = has_auxiliary_content s
   \<and> cursor (rebuild_effect s) = cursor s"
  by (simp add: rebuild_effect_eq has_auxiliary_content_def cursor_def)

lemma reindex_effect_frame:
  "navigableOptions (reindex_effect s) = navigableOptions s
   \<and> popoverActive (reindex_effect s) = popoverActive s
   \<and> popoverWasActive (reindex_effect s) = popoverWasActive s
   \<and> has_auxiliary_content (reindex_effect s) = has_auxiliary_content s"
  by (simp add: reindex_effect_def updateIndexOfSelectedOption_def cursor_defs Let_def
      has_auxiliary_content_def split: option.splits)

lemma visibility_effect_frame:
  "navigableOptions (visibility_effect s) = navigableOptions s
   \<and> popoverWasActive (visibility_effect s) = popoverWasActive s
   \<and> has_auxiliary_content (visibility_effect s) = has_auxiliary_content s
   \<and> cursor (visibility_effect s) = cursor s \<and> objs (visibility_effect s) = objs s"
  by (simp add: visibility_effect_def toggle_defs has_auxiliary_content_def cursor_def)

lemma rerender_navigableOptions:
  "navigableOptions (rerender ab opts aa s) =
     [length (objs s) ..< length (objs s) + length (caller_entries
        (s\<lparr>actionsBefore := ab, options := opts, actionsAfter := aa\<rparr>))]"
  by (simp add: rerender_def visibility_effect_frame reindex_effect_frame rebuild_effect_eq)

lemma has_auxiliary_content_lists:
  "has_auxiliary_content (s\<lparr>actionsBefore := ab, options := opts, actionsAfter := aa\<rparr>)
     = has_auxiliary_content s"
  by (simp add: has_auxiliary_content_def)

lemma rerender_flags:
  "popoverWasActive (rerender ab opts aa s) = popoverWasActive s
   \<and> has_auxiliary_content (rerender ab opts aa s) = has_auxiliary_content s"
  by (simp add: rerender_def visibility_effect_frame reindex_effect_frame rebuild_effect_frame
      has_auxiliary_content_lists)

lemma rerender_popoverActive:
  "popoverActive (rerender ab opts aa s) =
     (let n = caller_entries (s\<lparr>actionsBefore := ab, options := opts, actionsAfter := aa\<rparr>)
      in if n = [] \<and> \<not> has_auxiliary_content s then False
         else if popoverWasActive s \<and> n \<noteq> [] then True
         else popoverActive s)"
proof -
  let ?r = "reindex_effect (rebuild_effect
       (s\<lparr>actionsBefore := ab, options := opts, actionsAfter := aa\<rparr>))"
  let ?n = "caller_entries (s\<lparr>actionsBefore := ab, options := opts, actionsAfter := aa\<rparr>)"
  have n: "(navigableOptions ?r = []) = (?n = [])"
    by (auto simp: reindex_effect_frame rebuild_effect_eq)
  have a: "has_auxiliary_content ?r = has_auxiliary_content s"
    by (simp add: reindex_effect_frame rebuild_effect_frame has_auxiliary_content_lists)
  have w: "popoverWasActive ?r = popoverWasActive s"
    by (simp add: reindex_effect_frame rebuild_effect_frame)
  have p: "popoverActive ?r = popoverActive s"
    by (simp add: reindex_effect_frame rebuild_effect_frame)
  have "popoverActive (visibility_effect ?r) =
      (if navigableOptions ?r = [] \<and> \<not> has_auxiliary_content ?r then False
       else if popoverWasActive ?r \<and> navigableOptions ?r \<noteq> [] then True
       else popoverActive ?r)"
    by (simp add: visibility_effect_def toggle_defs has_auxiliary_content_def)
  then show ?thesis
    unfolding rerender_def Let_def n a w p .
qed

text \<open>
  Claim C8. When the visibility effect runs on a list change: with an empty list and no
  auxiliary content (\<^verbatim>\<open>contentBefore\<close>, \<^verbatim>\<open>contentAfter\<close>, \<^verbatim>\<open>emptyState\<close> all
  absent) the panel is closed, whatever it was; otherwise, with the memory flag set and a
  non-empty list, the panel is open; in the remaining cases nothing changes. Hence,
  with the memory flag set and no auxiliary content, a render with no entries closes the
  panel and the next render with one entry opens it again.
\<close>

theorem visibility_effect_list_change:
  "(navigableOptions s = [] \<and> \<not> has_auxiliary_content s \<longrightarrow>
      \<not> popoverActive (visibility_effect s))
   \<and> (popoverWasActive s \<and> navigableOptions s \<noteq> [] \<longrightarrow> popoverActive (visibility_effect s))
   \<and> (navigableOptions s = [] \<and> has_auxiliary_content s
        \<or> navigableOptions s \<noteq> [] \<and> \<not> popoverWasActive s \<longrightarrow> visibility_effect s = s)
   \<and> (popoverWasActive s \<and> \<not> has_auxiliary_content s \<longrightarrow>
        \<not> popoverActive (rerender None [] None s)
        \<and> popoverActive (rerender None [a] None (rerender None [] None s)))"
proof -
  have eff: "(navigableOptions s = [] \<and> \<not> has_auxiliary_content s \<longrightarrow>
      \<not> popoverActive (visibility_effect s))
   \<and> (popoverWasActive s \<and> navigableOptions s \<noteq> [] \<longrightarrow> popoverActive (visibility_effect s))
   \<and> (navigableOptions s = [] \<and> has_auxiliary_content s
        \<or> navigableOptions s \<noteq> [] \<and> \<not> popoverWasActive s \<longrightarrow> visibility_effect s = s)"
    by (auto simp: visibility_effect_def toggle_defs has_auxiliary_content_def)
  have scen: "\<not> popoverActive (rerender None [] None s)
        \<and> popoverActive (rerender None [a] None (rerender None [] None s))"
    if "popoverWasActive s" "\<not> has_auxiliary_content s"
    using that
    by (simp add: rerender_popoverActive rerender_flags caller_entries_def)
  from eff scen show ?thesis by blast
qed

theorem visibility_effect_list_change_witness:
  "popoverActive (handleFocus abc_state)
   \<and> \<not> popoverActive (rerender None [] None (handleFocus abc_state))
   \<and> popoverActive (rerender None [0] None (rerender None [] None (handleFocus abc_state)))"
proof -
  have f: "popoverWasActive (handleFocus abc_state)
      \<and> \<not> has_auxiliary_content (handleFocus abc_state)
      \<and> popoverActive (handleFocus abc_state)"
    by (simp add: ex_defs has_auxiliary_content_def)
  with visibility_effect_list_change [of "handleFocus abc_state" 0] show ?thesis
    by blast
qed

subsection \<open>At most one highlighted entry\<close>

lemma only_cursor_activeI:
  assumes "distinct (navigableOptions s)"
    and "\<And>r. r \<in> set (navigableOptions s) \<Longrightarrow> r < length (objs s)"
    and "\<And>r. r \<in> set (navigableOptions s) \<Longrightarrow> is_active s r \<Longrightarrow> selectedOption s = Some r"
  shows "only_cursor_active s"
  using assms by (simp add: only_cursor_active_def list_all_iff)

lemma only_cursor_activeD:
  assumes "only_cursor_active s"
  shows "distinct (navigableOptions s)"
    and "r \<in> set (navigableOptions s) \<Longrightarrow> r < length (objs s)"
    and "r \<in> set (navigableOptions s) \<Longrightarrow> is_active s r \<Longrightarrow> selectedOption s = Some r"
  using assms by (simp_all add: only_cursor_active_def list_all_iff)

lemma distinct_filter_le_one:
  assumes "distinct xs" and "\<And>x. x \<in> set xs \<Longrightarrow> P x \<Longrightarrow> x = c"
  shows "length (filter P xs) \<le> 1"
proof -
  have d: "distinct (filter P xs)" using assms(1) by simp
  have "set (filter P xs) \<subseteq> {c}" using assms(2) by auto
  then have "card (set (filter P xs)) \<le> card {c}"
    by (intro card_mono) simp_all
  also have "card {c} = 1" by simp
  finally show ?thesis
    unfolding distinct_card [OF d] .
qed

lemma active_count_le_one:
  assumes "only_cursor_active s"
  shows "active_count s \<le> 1"
proof (cases "selectedOption s")
  case None
  with only_cursor_activeD(3) [OF assms] have "filter (is_active s) (navigableOptions s) = []"
    by (auto simp: filter_empty_conv)
  then show ?thesis by (simp add: active_count_def)
next
  case (Some c)
  with only_cursor_activeD(3) [OF assms]
  have "\<And>x. x \<in> set (navigableOptions s) \<Longrightarrow> is_active s x \<Longrightarrow> x = c" by auto
  with only_cursor_activeD(1) [OF assms] show ?thesis
    unfolding active_count_def by (rule distinct_filter_le_one)
qed

lemma selectOptionAtIndex_nonempty:
  "navigableOptions s \<noteq> [] \<Longrightarrow>
   selectOptionAtIndex i s =
     s\<lparr>objs := (case nth_opt (navigableOptions s) i of
                  None \<Rightarrow> (case selectedOption s of None \<Rightarrow> objs s
                            | Some a \<Rightarrow> set_active (objs s) a False)
                | Some b \<Rightarrow> set_active (case selectedOption s of None \<Rightarrow> objs s
                            | Some a \<Rightarrow> set_active (objs s) a False) b True),
       selectedOption := nth_opt (navigableOptions s) i, selectedIndex := i\<rparr>"
  by (simp add: selectOptionAtIndex_def visuallyUpdateSelectedOption_def Let_def
      split: option.splits)

lemma active_set_active:
  "r < length h \<Longrightarrow>
   (active (set_active h a b ! r) = Some True) =
     (if r = a then b else active (h ! r) = Some True)"
  by (simp add: set_active_def)

lemma only_cursor_active_selectOptionAtIndex:
  assumes "only_cursor_active s"
  shows "only_cursor_active (selectOptionAtIndex i s)"
proof (cases "navigableOptions s = []")
  case True
  with assms show ?thesis by (simp add: selectOptionAtIndex_empty)
next
  case False
  let ?h1 = "case selectedOption s of None \<Rightarrow> objs s | Some a \<Rightarrow> set_active (objs s) a False"
  note d = only_cursor_activeD [OF assms]
  have len1: "length ?h1 = length (objs s)"
    by (simp add: length_set_active split: option.splits)
  have h1: "active (?h1 ! r) \<noteq> Some True" if "r \<in> set (navigableOptions s)" for r
  proof (cases "selectedOption s")
    case None
    with d(3) [OF that] show ?thesis by (auto simp: is_active_def)
  next
    case (Some a)
    with d(3) [OF that] d(2) [OF that] show ?thesis
      by (auto simp: is_active_def active_set_active)
  qed
  show ?thesis
  proof (cases "nth_opt (navigableOptions s) i")
    case None
    show ?thesis
    proof (rule only_cursor_activeI)
      show "distinct (navigableOptions (selectOptionAtIndex i s))"
        using d(1) by (simp add: navigableOptions_selectOptionAtIndex)
    next
      fix r assume "r \<in> set (navigableOptions (selectOptionAtIndex i s))"
      then have "r \<in> set (navigableOptions s)"
        by (simp add: navigableOptions_selectOptionAtIndex)
      from d(2) [OF this] show "r < length (objs (selectOptionAtIndex i s))"
        using None len1 by (simp add: selectOptionAtIndex_nonempty [OF False])
    next
      fix r assume "r \<in> set (navigableOptions (selectOptionAtIndex i s))"
        and act: "is_active (selectOptionAtIndex i s) r"
      then have "r \<in> set (navigableOptions s)"
        by (simp add: navigableOptions_selectOptionAtIndex)
      from h1 [OF this] act None
      show "selectedOption (selectOptionAtIndex i s) = Some r"
        by (simp add: selectOptionAtIndex_nonempty [OF False] is_active_def)
    qed
  next
    case (Some b)
    show ?thesis
    proof (rule only_cursor_activeI)
      show "distinct (navigableOptions (selectOptionAtIndex i s))"
        using d(1) by (simp add: navigableOptions_selectOptionAtIndex)
    next
      fix r assume "r \<in> set (navigableOptions (selectOptionAtIndex i s))"
      then have "r \<in> set (navigableOptions s)"
        by (simp add: navigableOptions_selectOptionAtIndex)
      from d(2) [OF this] show "r < length (objs (selectOptionAtIndex i s))"
        using Some len1
        by (simp add: selectOptionAtIndex_nonempty [OF False] length_set_active)
    next
      fix r assume "r \<in> set (navigableOptions (selectOptionAtIndex i s))"
        and act: "is_active (selectOptionAtIndex i s) r"
      then have mem: "r \<in> set (navigableOptions s)"
        by (simp add: navigableOptions_selectOptionAtIndex)
      have "r < length ?h1" using d(2) [OF mem] len1 by simp
      then have "(active (set_active ?h1 b True ! r) = Some True) =
          (if r = b then True else active (?h1 ! r) = Some True)"
        by (rule active_set_active)
      with h1 [OF mem] act Some
      show "selectedOption (selectOptionAtIndex i s) = Some r"
        by (auto simp: selectOptionAtIndex_nonempty [OF False] is_active_def split: if_splits)
    qed
  qed
qed

lemma only_cursor_active_reset:
  assumes "only_cursor_active s"
  shows "only_cursor_active (resetVisuallySelectedOptions s)"
proof (rule only_cursor_activeI)
  note d = only_cursor_activeD [OF assms]
  show "distinct (navigableOptions (resetVisuallySelectedOptions s))"
    using d(1) by (simp add: resetVisuallySelectedOptions_def)
  fix r assume "r \<in> set (navigableOptions (resetVisuallySelectedOptions s))"
  then have mem: "r \<in> set (navigableOptions s)"
    by (simp add: resetVisuallySelectedOptions_def)
  from d(2) [OF mem] show "r < length (objs (resetVisuallySelectedOptions s))"
    by (simp add: resetVisuallySelectedOptions_def length_clear_all)
  assume "is_active (resetVisuallySelectedOptions s) r"
  with nth_clear_all_same [OF mem d(2) [OF mem], of False]
  show "selectedOption (resetVisuallySelectedOptions s) = Some r"
    by (simp add: resetVisuallySelectedOptions_def is_active_def)
qed

lemma only_cursor_active_nav_step:
  "only_cursor_active s \<Longrightarrow> only_cursor_active (nav_step x s)"
  by (cases x)
    (simp_all add: selectNextOption_def selectPreviousOption_def Let_def
      only_cursor_active_selectOptionAtIndex only_cursor_active_reset)

lemma only_cursor_active_run_nav:
  "only_cursor_active s \<Longrightarrow> only_cursor_active (run_nav xs s)"
  by (induction xs arbitrary: s) (simp_all add: only_cursor_active_nav_step)

text \<open>
  Claim C9 says that after any sequence of navigation operations at most one entry of
  the navigable list has \<^verbatim>\<open>active = true\<close>. The rebuild copies every field of the
  owner's entries, the \<^verbatim>\<open>active\<close> flag included, and navigation clears the flag of
  the cursor's entry only. With an owner whose third option carries
  \<^verbatim>\<open>active: true\<close>, one entry is highlighted after the first render and two are after
  one \<^verbatim>\<open>selectNextOption\<close>.
\<close>

theorem navigation_at_most_one_active_counterexample:
  "active_count flagged_state = 1
   \<and> cursor flagged_state = (- 1, None)
   \<and> active_count (run_nav [SelectNextOption] flagged_state) = 2"
  by (simp add: flagged_state_def ex_defs active_count_def is_active_def)

text \<open>
  Claim C9, amended. When the navigable list holds distinct objects and every highlighted
  entry of it is the cursor's entry (as after a rebuild from entries none of which carries
  \<^verbatim>\<open>active = true\<close>), then after any sequence of \<^verbatim>\<open>selectOptionAtIndex\<close>,
  \<^verbatim>\<open>selectNextOption\<close>, \<^verbatim>\<open>selectPreviousOption\<close> and
  \<^verbatim>\<open>resetVisuallySelectedOptions\<close> at most one entry has \<^verbatim>\<open>active = true\<close>.
\<close>

theorem navigation_at_most_one_active:
  assumes "only_cursor_active s"
  shows "active_count (run_nav xs s) \<le> 1"
  using assms by (intro active_count_le_one only_cursor_active_run_nav)

lemma abc_state_only_cursor_active: "only_cursor_active abc_state"
  by (simp add: only_cursor_active_def is_active_def ex_defs)

theorem navigation_at_most_one_active_witness:
  "only_cursor_active abc_state
   \<and> active_count (run_nav [SelectNextOption, SelectNextOption, SelectPreviousOption,
        SelectOptionAtIndex 2, ResetVisuallySelectedOptions, SelectPreviousOption]
          abc_state) \<le> 1
   \<and> active_count (run_nav [SelectNextOption, SelectNextOption] abc_state) = 1"
proof -
  have one: "active_count (run_nav [SelectNextOption, SelectNextOption] abc_state) = 1"
    by (simp add: ex_defs active_count_def is_active_def)
  have le: "active_count (run_nav [SelectNextOption, SelectNextOption, SelectPreviousOption,
        SelectOptionAtIndex 2, ResetVisuallySelectedOptions, SelectPreviousOption]
          abc_state) \<le> 1"
    using abc_state_only_cursor_active by (rule navigation_at_most_one_active)
  from abc_state_only_cursor_active le one show ?thesis by blast
qed

subsection \<open>The owner's entries are not written to\<close>

lemma not_held_iff:
  "not_held s a =
     (a < length (objs s) \<and> a \<notin> set (navigableOptions s) \<and> selectedOption s \<noteq> Some a)"
  by (simp add: not_held_def)

lemma keeps_selectOptionAtIndex:
  assumes "not_held s a"
  shows "not_held (selectOptionAtIndex i s) a \<and> objs (selectOptionAtIndex i s) ! a = objs s ! a"
proof (cases "navigableOptions s = []")
  case True
  with assms show ?thesis by (simp add: selectOptionAtIndex_empty)
next
  case False
  from assms have a: "a < length (objs s)" "a \<notin> set (navigableOptions s)"
    "selectedOption s \<noteq> Some a" by (simp_all add: not_held_iff)
  let ?h1 = "case selectedOption s of None \<Rightarrow> objs s | Some c \<Rightarrow> set_active (objs s) c False"
  have h1: "?h1 ! a = objs s ! a \<and> length ?h1 = length (objs s)"
    using a(3) by (auto simp: nth_set_active_other length_set_active split: option.splits)
  show ?thesis
  proof (cases "nth_opt (navigableOptions s) i")
    case None
    with a h1 show ?thesis
      by (simp add: selectOptionAtIndex_nonempty [OF False] not_held_iff)
  next
    case (Some b)
    then have "b \<in> set (navigableOptions s)" by (rule nth_opt_mem)
    with a(2) have "b \<noteq> a" by auto
    with a h1 Some show ?thesis
      by (simp add: selectOptionAtIndex_nonempty [OF False] not_held_iff
          nth_set_active_other length_set_active)
  qed
qed

lemma keeps_reset:
  assumes "not_held s a"
  shows "not_held (resetVisuallySelectedOptions s) a
       \<and> objs (resetVisuallySelectedOptions s) ! a = objs s ! a"
  using assms
  by (simp add: resetVisuallySelectedOptions_def not_held_iff length_clear_all
      nth_clear_all_other)

lemma keeps_nav_step:
  "not_held s a \<Longrightarrow> not_held (nav_step x s) a \<and> objs (nav_step x s) ! a = objs s ! a"
  by (cases x)
    (simp_all add: selectNextOption_def selectPreviousOption_def Let_def
      keeps_selectOptionAtIndex keeps_reset)

lemma keeps_rebuild_effect:
  assumes "not_held s a"
  shows "not_held (rebuild_effect s) a \<and> objs (rebuild_effect s) ! a = objs s ! a"
  using assms by (simp add: rebuild_effect_eq not_held_iff nth_append)

lemma keeps_reindex_effect:
  assumes "not_held s a"
  shows "not_held (reindex_effect s) a \<and> objs (reindex_effect s) ! a = objs s ! a"
  using assms
  by (simp add: reindex_effect_def updateIndexOfSelectedOption_def keeps_selectOptionAtIndex
      keeps_reset split: option.splits)

lemma keeps_visibility_effect:
  assumes "not_held s a"
  shows "not_held (visibility_effect s) a \<and> objs (visibility_effect s) ! a = objs s ! a"
  using assms by (simp add: visibility_effect_def toggle_defs not_held_iff)

lemma not_held_lists:
  "not_held (s\<lparr>actionsBefore := ab, options := opts, actionsAfter := aa\<rparr>) a = not_held s a"
  by (simp add: not_held_iff)

lemma keeps_rerender:
  assumes "not_held s a"
  shows "not_held (rerender ab opts aa s) a \<and> objs (rerender ab opts aa s) ! a = objs s ! a"
proof -
  let ?s0 = "s\<lparr>actionsBefore := ab, options := opts, actionsAfter := aa\<rparr>"
  from assms have 0: "not_held ?s0 a" by (simp add: not_held_lists)
  have 1: "not_held (rebuild_effect ?s0) a \<and> objs (rebuild_effect ?s0) ! a = objs s ! a"
    using keeps_rebuild_effect [OF 0] by simp
  have 2: "not_held (reindex_effect (rebuild_effect ?s0)) a
      \<and> objs (reindex_effect (rebuild_effect ?s0)) ! a = objs s ! a"
    using keeps_reindex_effect [of "rebuild_effect ?s0" a] 1 by simp
  show ?thesis
    using keeps_visibility_effect [of "reindex_effect (rebuild_effect ?s0)" a] 2
    by (simp add: rerender_def)
qed

lemma keeps_selectOptions:
  assumes "not_held s a"
  shows "not_held (selectOptions r s) a \<and> objs (selectOptions r s) ! a = objs s ! a"
proof -
  let ?s1 = "s\<lparr>onSelect_calls := onSelect_calls s @ [r]\<rparr>"
  from assms have "not_held ?s1 a" by (simp add: not_held_iff)
  from keeps_reset [OF this] assms show ?thesis
    by (simp add: selectOptions_def Let_def toggle_defs not_held_iff)
qed

lemma keeps_handleSelection:
  assumes "not_held s a"
  shows "not_held (handleSelection v s) a \<and> objs (handleSelection v s) ! a = objs s ! a"
proof -
  have "not_held (s\<lparr>arrs := x\<rparr>) a" for x
    using assms by (simp add: not_held_iff)
  from this [THEN keeps_selectOptions] show ?thesis
    by (simp add: handleSelection_def Let_def)
qed

lemma keeps_handleBlur:
  assumes "not_held s a"
  shows "not_held (handleBlur s) a \<and> objs (handleBlur s) ! a = objs s ! a"
proof -
  from assms have "not_held (setPopoverWasActive False (forcePopoverActiveFalse s)) a"
    by (simp add: toggle_defs not_held_iff)
  from keeps_reset [OF this] show ?thesis
    by (simp add: handleBlur_def toggle_defs)
qed

lemma keeps_step:
  assumes "not_held s a"
  shows "not_held (step e s) a \<and> objs (step e s) ! a = objs s ! a"
proof (cases e)
  case (Navigate x)
  with keeps_nav_step [OF assms] show ?thesis by simp
next
  case (Rerender ab opts aa)
  with keeps_rerender [OF assms] show ?thesis by simp
next
  case (OwnerAlloc x)
  with assms show ?thesis by (simp add: not_held_iff nth_append)
next
  case (Commit v)
  with keeps_handleSelection [OF assms] show ?thesis by simp
next
  case Focus
  with assms show ?thesis by (simp add: handleFocus_def toggle_defs not_held_iff)
next
  case Blur
  with keeps_handleBlur [OF assms] show ?thesis by simp
next
  case Click
  with assms show ?thesis by (simp add: handleClick_def toggle_defs not_held_iff)
next
  case Dismiss
  with assms show ?thesis by (simp add: handlePopoverClose_def toggle_defs not_held_iff)
qed

lemma keeps_run:
  "not_held s a \<Longrightarrow> not_held (run es s) a \<and> objs (run es s) ! a = objs s ! a"
proof (induction es arbitrary: s)
  case Nil
  then show ?case by simp
next
  case (Cons e es)
  from keeps_step [OF Cons.prems, of e]
  have 1: "not_held (step e s) a" and 2: "objs (step e s) ! a = objs s ! a" by simp_all
  from Cons.IH [OF 1] 2 show ?case by simp
qed

lemma rerender_fresh:
  "list_all (\<lambda>r. length (objs s) \<le> r) (navigableOptions (rerender ab opts aa s))"
  by (simp add: rerender_navigableOptions list_all_iff)

lemma mount_not_held: "a < length (objs s) \<Longrightarrow> not_held (mount s) a"
  by (simp add: mount_def not_held_iff)

text \<open>
  Claim C10. The navigable list is made of copies (\<^verbatim>\<open>assignOptionIds\<close>), and the
  \<^verbatim>\<open>active\<close> flag is only ever written to entries of the navigable list and to the
  cursor's entry. Hence an object the component does not hold (every object of the owner:
  at the first render the component holds nothing, and a rebuild stores new objects only)
  is the same after any sequence of navigation operations, renders with new lists,
  commits, focus, blur, click and dismiss events, and the component still does not hold it.
\<close>

theorem owner_entries_never_mutated:
  assumes "a < length (objs s)"
    and "a \<notin> set (navigableOptions s)"
    and "selectedOption s \<noteq> Some a"
  shows "objs (run es s) ! a = objs s ! a
       \<and> a \<notin> set (navigableOptions (run es s))
       \<and> selectedOption (run es s) \<noteq> Some a"
proof -
  from assms have "not_held s a" by (simp add: not_held_iff)
  from keeps_run [OF this, of es] show ?thesis by (simp add: not_held_iff)
qed

theorem owner_entries_never_mutated_witness:
  "objs (mount ex_props) = [ex_entry ''A'' None, ex_entry ''B'' None, ex_entry ''C'' None]
   \<and> objs (run [Rerender None [0, 1, 2] None, Focus, Navigate SelectNextOption,
        Navigate SelectNextOption, Rerender None [1, 2] None, Navigate SelectPreviousOption,
        Commit ''C'', Blur] (mount ex_props)) ! 1 = ex_entry ''B'' None
   \<and> active (objs (run [Rerender None [0, 1, 2] None, Focus, Navigate SelectNextOption]
        (mount ex_props)) ! 3) = Some True"
proof -
  have m: "objs (mount ex_props) = [ex_entry ''A'' None, ex_entry ''B'' None, ex_entry ''C'' None]
      \<and> navigableOptions (mount ex_props) = [] \<and> selectedOption (mount ex_props) = None"
    by (simp add: mount_def ex_props_def)
  have pre: "1 < length (objs (mount ex_props))" "1 \<notin> set (navigableOptions (mount ex_props))"
    "selectedOption (mount ex_props) \<noteq> Some 1"
    using m by simp_all
  have k: "objs (run [Rerender None [0, 1, 2] None, Focus, Navigate SelectNextOption,
        Navigate SelectNextOption, Rerender None [1, 2] None, Navigate SelectPreviousOption,
        Commit ''C'', Blur] (mount ex_props)) ! 1 = objs (mount ex_props) ! 1"
    using owner_entries_never_mutated [OF pre] by blast
  have w: "active (objs (run [Rerender None [0, 1, 2] None, Focus, Navigate SelectNextOption]
        (mount ex_props)) ! 3) = Some True"
    by (simp add: ex_defs)
  from m k w show ?thesis by simp
qed

subsection \<open>The cursor after a rebuild\<close>

text \<open>
  The three cases of \<^verbatim>\<open>updateIndexOfSelectedOption\<close> on the list of the state: the
  highlighted entry is in the list, the index is beyond the list, or the index is kept.
\<close>

lemma updateIndexOfSelectedOption_cases:
  "cursor (updateIndexOfSelectedOption (navigableOptions s) s) =
     (case selectedOption s of
        Some so \<Rightarrow>
          if so \<in> set (navigableOptions s) then (indexOf (navigableOptions s) so, Some so)
          else if selectedIndex s > int (length (navigableOptions s)) - 1 then (- 1, None)
          else if navigableOptions s = [] then cursor s
          else (selectedIndex s, nth_opt (navigableOptions s) (selectedIndex s))
      | None \<Rightarrow>
          if selectedIndex s > int (length (navigableOptions s)) - 1 then (- 1, None)
          else if navigableOptions s = [] then cursor s
          else (selectedIndex s, nth_opt (navigableOptions s) (selectedIndex s)))"
proof (cases "navigableOptions s = []")
  case True
  then show ?thesis
    by (auto simp: updateIndexOfSelectedOption_def includes_arr_def selectOptionAtIndex_empty
        resetVisuallySelectedOptions_def cursor_def split: option.splits)
next
  case False
  then show ?thesis
    by (auto simp: updateIndexOfSelectedOption_def includes_arr_def cursor_selectOptionAtIndex
        nth_opt_indexOf resetVisuallySelectedOptions_def cursor_def [of "s\<lparr>selectedOption := None,
          selectedIndex := - 1, objs := foldl (\<lambda>h a. set_active h a False) (objs s)
          (navigableOptions s)\<rparr>"] split: option.splits)
qed

lemma rebuild_effect_drops_highlighted:
  assumes "selectedOption s = Some a" and "a < length (objs s)"
  shows "a \<notin> set (navigableOptions (rebuild_effect s))"
  using assms by (simp add: rebuild_effect_eq)

lemma cursor_rerender:
  assumes "case selectedOption s of Some a \<Rightarrow> a < length (objs s) | None \<Rightarrow> True"
  shows "cursor (rerender ab opts aa s) =
     (let nav = navigableOptions (rerender ab opts aa s)
      in if selectedIndex s > int (length nav) - 1 then (- 1, None)
         else if nav = [] then cursor s
         else (selectedIndex s, nth_opt nav (selectedIndex s)))"
proof -
  let ?s0 = "s\<lparr>actionsBefore := ab, options := opts, actionsAfter := aa\<rparr>"
  let ?s1 = "rebuild_effect ?s0"
  have nav: "navigableOptions (rerender ab opts aa s) = navigableOptions ?s1"
    by (simp add: rerender_def visibility_effect_frame reindex_effect_frame)
  have cur1: "selectedOption ?s1 = selectedOption s \<and> selectedIndex ?s1 = selectedIndex s"
    by (simp add: rebuild_effect_eq)
  have c1: "cursor ?s1 = cursor s"
    by (simp add: rebuild_effect_eq cursor_def)
  have fresh: "a \<notin> set (navigableOptions ?s1)" if "selectedOption s = Some a" for a
  proof -
    from that assms have "selectedOption ?s0 = Some a" "a < length (objs ?s0)" by simp_all
    then show ?thesis by (rule rebuild_effect_drops_highlighted)
  qed
  have "cursor (rerender ab opts aa s) = cursor (reindex_effect ?s1)"
    by (simp add: rerender_def visibility_effect_frame)
  also have "\<dots> = cursor (updateIndexOfSelectedOption (navigableOptions ?s1) ?s1)"
    by (simp add: reindex_effect_def)
  also have "\<dots> =
     (if selectedIndex s > int (length (navigableOptions ?s1)) - 1 then (- 1, None)
      else if navigableOptions ?s1 = [] then cursor s
      else (selectedIndex s, nth_opt (navigableOptions ?s1) (selectedIndex s)))"
  proof (cases "selectedOption s")
    case None
    with cur1 have "selectedOption ?s1 = None" "selectedIndex ?s1 = selectedIndex s"
      by simp_all
    with c1 show ?thesis
      by (simp only: updateIndexOfSelectedOption_cases option.case)
  next
    case (Some a)
    with cur1 have "selectedOption ?s1 = Some a" "selectedIndex ?s1 = selectedIndex s"
      by simp_all
    with c1 fresh [OF Some] show ?thesis
      by (simp only: updateIndexOfSelectedOption_cases option.case if_False)
  qed
  finally show ?thesis by (simp add: nav Let_def)
qed

text \<open>
  Claim C4 says that after a rebuild the cursor follows the previously highlighted item
  to its new position. \<^verbatim>\<open>updateIndexOfSelectedOption\<close> looks the highlighted entry up
  by identity, but the rebuild (\<^verbatim>\<open>assignOptionIds\<close>) puts new copies into the list,
  so the highlighted entry, a copy made by the rebuild before, is never among them
  (\<open>rebuild_effect_drops_highlighted\<close>, \<open>cursor_rerender\<close>). With the options \<open>A\<close>,
  \<open>B\<close>, \<open>C\<close> and the cursor on \<open>B\<close> (index 1), a render with the owner's same \<open>B\<close> and
  \<open>C\<close> puts the copy of \<open>B\<close> at position 0, and the cursor stays at index 1, on the copy
  of \<open>C\<close>.
\<close>

theorem rebuild_does_not_follow_highlighted_item:
  "cursor on_B_state = (1, Some 4)
   \<and> opt_value (objs on_B_state ! 4) = Some ''B''
   \<and> objs on_B_state ! 1 = ex_entry ''B'' None
   \<and> navigableOptions (rerender None [1, 2] None on_B_state) = [6, 7]
   \<and> opt_value (objs (rerender None [1, 2] None on_B_state) ! 6) = Some ''B''
   \<and> opt_value (objs (rerender None [1, 2] None on_B_state) ! 7) = Some ''C''
   \<and> cursor (rerender None [1, 2] None on_B_state) = (1, Some 7)"
  by (simp add: ex_defs)

text \<open>
  The cursor's index stays in \<open>[-1, n - 1]\<close>: a render with its effects establishes the
  range, and the two steps keep it.
\<close>

lemma rerender_index_range:
  assumes "case selectedOption s of Some a \<Rightarrow> a < length (objs s) | None \<Rightarrow> True"
    and "- 1 \<le> selectedIndex s"
  shows "- 1 \<le> selectedIndex (rerender ab opts aa s)
       \<and> selectedIndex (rerender ab opts aa s)
           < int (length (navigableOptions (rerender ab opts aa s)))"
proof -
  let ?s' = "rerender ab opts aa s"
  let ?n = "int (length (navigableOptions ?s'))"
  have c: "cursor ?s' =
     (if selectedIndex s > ?n - 1 then (- 1, None)
      else if navigableOptions ?s' = [] then cursor s
      else (selectedIndex s, nth_opt (navigableOptions ?s') (selectedIndex s)))"
    using cursor_rerender [OF assms(1), of ab opts aa] by (simp add: Let_def)
  show ?thesis
  proof (cases "selectedIndex s > ?n - 1")
    case True
    with c have "selectedIndex ?s' = - 1" by (simp add: cursor_def)
    then show ?thesis by simp
  next
    case False
    note small = this
    show ?thesis
    proof (cases "navigableOptions ?s' = []")
      case True
      with c small have "selectedIndex ?s' = selectedIndex s" by (simp add: cursor_def)
      with small assms(2) show ?thesis by simp
    next
      case False
      with c small have "selectedIndex ?s' = selectedIndex s" by (simp add: cursor_def)
      with small assms(2) show ?thesis by simp
    qed
  qed
qed

lemma next_previous_index_range:
  assumes "navigableOptions s \<noteq> []"
    and "- 1 \<le> selectedIndex s" and "selectedIndex s < int (length (navigableOptions s))"
  shows "0 \<le> selectedIndex (selectNextOption s)
       \<and> selectedIndex (selectNextOption s) < int (length (navigableOptions s))
       \<and> 0 \<le> selectedIndex (selectPreviousOption s)
       \<and> selectedIndex (selectPreviousOption s) < int (length (navigableOptions s))"
proof -
  have n: "selectedIndex (selectNextOption s) =
      (if selectedIndex s + 1 \<ge> int (length (navigableOptions s)) then 0
       else selectedIndex s + 1)"
    using cursor_selectNextOption [OF assms(1)] by (simp add: cursor_def Let_def)
  have p: "selectedIndex (selectPreviousOption s) =
      (if selectedIndex s \<le> 0 then int (length (navigableOptions s)) - 1
       else selectedIndex s - 1)"
    using cursor_selectPreviousOption [OF assms(1)] by (simp add: cursor_def Let_def)
  from assms have "0 < int (length (navigableOptions s))" by simp
  with assms(2,3) show ?thesis unfolding n p by auto
qed

subsection \<open>The highlight after a rebuild\<close>

text \<open>
  A render from entries none of which carries \<^verbatim>\<open>active = true\<close> leaves a state in which
  every highlighted entry is the cursor's entry.
\<close>

lemma only_cursor_active_rebuild_effect:
  assumes "list_all (\<lambda>e. active (objs s ! e) \<noteq> Some True) (caller_entries s)"
  shows "only_cursor_active (rebuild_effect s)"
proof (rule only_cursor_activeI)
  let ?n = "length (caller_entries s)"
  show "distinct (navigableOptions (rebuild_effect s))"
    by (simp add: rebuild_effect_eq)
  fix r assume "r \<in> set (navigableOptions (rebuild_effect s))"
  then have r: "length (objs s) \<le> r" "r < length (objs s) + ?n"
    by (simp_all add: rebuild_effect_eq)
  then show "r < length (objs (rebuild_effect s))"
    by (simp add: rebuild_effect_eq)
  from r obtain k where k: "r = length (objs s) + k" "k < ?n"
    by (metis le_Suc_ex nat_add_left_cancel_less)
  from assms k(2) have "active (objs s ! (caller_entries s ! k)) \<noteq> Some True"
    by (simp add: list_all_length)
  with k have "\<not> is_active (rebuild_effect s) r"
    by (simp add: rebuild_effect_eq is_active_def nth_append)
  moreover assume "is_active (rebuild_effect s) r"
  ultimately show "selectedOption (rebuild_effect s) = Some r" by simp
qed

lemma only_cursor_active_reindex_effect:
  "only_cursor_active s \<Longrightarrow> only_cursor_active (reindex_effect s)"
  by (simp add: reindex_effect_def updateIndexOfSelectedOption_def
      only_cursor_active_selectOptionAtIndex only_cursor_active_reset split: option.splits)

lemma only_cursor_active_visibility_effect:
  "only_cursor_active s \<Longrightarrow> only_cursor_active (visibility_effect s)"
  by (simp add: visibility_effect_def toggle_defs only_cursor_active_def is_active_def)

lemma only_cursor_active_rerender:
  assumes "list_all (\<lambda>e. active (objs s ! e) \<noteq> Some True)
     (caller_entries (s\<lparr>actionsBefore := ab, options := opts, actionsAfter := aa\<rparr>))"
  shows "only_cursor_active (rerender ab opts aa s)"
proof -
  let ?s0 = "s\<lparr>actionsBefore := ab, options := opts, actionsAfter := aa\<rparr>"
  from assms have "list_all (\<lambda>e. active (objs ?s0 ! e) \<noteq> Some True) (caller_entries ?s0)"
    by simp
  then have "only_cursor_active (rebuild_effect ?s0)"
    by (rule only_cursor_active_rebuild_effect)
  then show ?thesis
    unfolding rerender_def
    by (intro only_cursor_active_visibility_effect only_cursor_active_reindex_effect)
qed

end
